theory Spec2Isabelle
  imports Main "HOL-Library.Word" "HOL-Library.AList"
begin

unbundle bit_operations_syntax

section \<open>AkComponentCallbackManager: the data model\<close>

text \<open>
  The development embeds \<^verbatim>\<open>AkComponentCallbackManager.cpp\<close>. Pointers are addresses
  (\<open>0\<close> is \<^verbatim>\<open>nullptr\<close>); the objects they point to live in explicit stores. Every
  member function is modelled as one atomic step on the store: the critical section
  that the source takes around the map accesses is not part of the model. Reading or
  deleting through an address that holds no object has no defined behaviour in C++ and
  is a \<open>fault\<close> here.
\<close>

type_synonym ptr = nat
type_synonym AkGameObjectID = "64 word"
type_synonym AkCallbackType = "32 word"
type_synonym AkCallbackFunc = nat
type_synonym FOnAkPostEventCallback = nat

datatype fault = UseAfterFree | DoubleFree

text \<open>
  \<^verbatim>\<open>AK_EndOfEvent\<close> is the audio engine's bit flag for the end of an event
  (\<^verbatim>\<open>0x0001\<close> in the engine's callback header, which is not part of this source file).
\<close>

definition AK_EndOfEvent :: AkCallbackType where
  "AK_EndOfEvent = 1"

text \<open>The two fields of \<^verbatim>\<open>AkCallbackInfo\<close> that the source reads and writes.\<close>

record AkCallbackInfo =
  pCookie :: ptr
  gameObjID :: AkGameObjectID

text \<open>\<^verbatim>\<open>FAkComponentCallbackManager_Constants\<close>: the optimization policy, fixed at compile time.\<close>

datatype Optimize = MemoryUsage | Speed

definition Optimize_Value :: Optimize where
  "Optimize_Value = MemoryUsage"

definition ReserveSize :: nat where
  "ReserveSize = 8"

text \<open>
  The three implementations of \<^verbatim>\<open>IAkUserEventCallbackPackage\<close>. Each carries the
  base class's \<^verbatim>\<open>uUserFlags\<close>. A user callback is a function pointer (\<open>0\<close> when none
  was supplied), a blueprint delegate is bound when its identifier is not \<open>0\<close>.
\<close>

datatype package =
    FAkFunctionPtrEventCallbackPackage
      (uUserFlags: "32 word") (pfnUserCallback: AkCallbackFunc) (pUserCookie: ptr)
  | FAkBlueprintDelegateEventCallbackPackage
      (uUserFlags: "32 word") (BlueprintCallback: FOnAkPostEventCallback)
  | FAkLatentActionEventCallbackPackage
      (uUserFlags: "32 word") (EndOfEventLatentAction: ptr)

text \<open>
  \<^verbatim>\<open>PackageSet\<close> is a \<^verbatim>\<open>TSet\<close> of package pointers and \<^verbatim>\<open>GameObjectToPackagesMap\<close> a
  \<^verbatim>\<open>TMap\<close> from game object to set. Both are kept as lists in insertion order, so that
  the loops of the source that iterate over them are recursions over the list.
\<close>

type_synonym PackageSet = "ptr list"
type_synonym PackagesMap = "(AkGameObjectID \<times> PackageSet) list"

text \<open>
  What a run leaves behind for an observer, in program order: the error log, the change
  of the map made by \<^verbatim>\<open>RemovePackageFromSet\<close>, each virtual call of \<^verbatim>\<open>HandleAction\<close>
  together with the set that the registry holds for the event's game object at the
  moment of the call (what the handler finds if it looks), each call of a user function
  with the callback info it received, each task handed to the game thread, each
  \<^verbatim>\<open>delete\<close>, and the cancellation request sent to the engine.
\<close>

datatype event =
    EvLogError string
  | EvMapRemove ptr AkGameObjectID
  | EvHandleAction ptr AkCallbackType "PackageSet option"
  | EvUserCall AkCallbackFunc AkCallbackType AkCallbackInfo
  | EvAsyncTask FOnAkPostEventCallback AkCallbackType AkCallbackInfo
  | EvDelete ptr
  | EvCancelEventCallbackGameObject AkGameObjectID

text \<open>
  The store. \<open>Instance\<close> is the static member; \<open>managers\<close> holds the
  \<^verbatim>\<open>GameObjectToPackagesMap\<close> of every live registry object, \<open>packages\<close> every live
  package, \<open>latentActions\<close> the \<^verbatim>\<open>EventFinished\<close> flag of every live latent action.
  \<open>userFunctions\<close> gives, for each function pointer, what the user's function does to
  the callback info it is handed; user functions are taken not to call back into the
  registry.
\<close>

record world =
  Instance :: ptr
  managers :: "ptr \<Rightarrow> PackagesMap option"
  packages :: "ptr \<Rightarrow> package option"
  latentActions :: "ptr \<Rightarrow> bool option"
  userFunctions :: "AkCallbackFunc \<Rightarrow> AkCallbackType \<Rightarrow> AkCallbackInfo \<Rightarrow> AkCallbackInfo"
  trace :: "event list"

definition emit :: "event \<Rightarrow> world \<Rightarrow> world" where
  "emit e w = w\<lparr>trace := trace w @ [e]\<rparr>"

definition store_map :: "ptr \<Rightarrow> PackagesMap \<Rightarrow> world \<Rightarrow> world" where
  "store_map this m w = w\<lparr>managers := (managers w)(this \<mapsto> m)\<rparr>"

definition bindr :: "fault + 'a \<Rightarrow> ('a \<Rightarrow> fault + 'b) \<Rightarrow> fault + 'b" where
  "bindr r f = (case r of Inl e \<Rightarrow> Inl e | Inr x \<Rightarrow> f x)"

subsection \<open>Containers\<close>

definition TSet_Add :: "ptr \<Rightarrow> PackageSet \<Rightarrow> PackageSet" where
  "TSet_Add p S = (if p \<in> set S then S else S @ [p])"

definition TSet_Remove :: "ptr \<Rightarrow> PackageSet \<Rightarrow> PackageSet" where
  "TSet_Remove p S = removeAll p S"

definition TSet_Num :: "PackageSet \<Rightarrow> nat" where
  "TSet_Num S = length S"

definition TMap_Find :: "AkGameObjectID \<Rightarrow> PackagesMap \<Rightarrow> PackageSet option" where
  "TMap_Find k m = map_of m k"

definition TMap_FindOrAdd :: "AkGameObjectID \<Rightarrow> PackagesMap \<Rightarrow> PackageSet \<times> PackagesMap" where
  "TMap_FindOrAdd k m =
     (case map_of m k of Some S \<Rightarrow> (S, m) | None \<Rightarrow> ([], m @ [(k, [])]))"

definition TMap_Remove :: "AkGameObjectID \<Rightarrow> PackagesMap \<Rightarrow> PackagesMap" where
  "TMap_Remove k m = AList.delete k m"

text \<open>Writing through the reference that \<^verbatim>\<open>Find\<close> or \<^verbatim>\<open>FindOrAdd\<close> returned for key \<open>k\<close>.\<close>

definition TMap_Assign :: "AkGameObjectID \<Rightarrow> PackageSet \<Rightarrow> PackagesMap \<Rightarrow> PackagesMap" where
  "TMap_Assign k S m = AList.update k S m"

subsection \<open>Allocation\<close>

text \<open>
  \<open>new_package p pkg\<close> is a \<^verbatim>\<open>new\<close> expression whose allocator answered with address
  \<open>p\<close>: the package is built there, and nothing is built when the allocator answered
  \<^verbatim>\<open>nullptr\<close>. \<open>delete_package\<close> is \<^verbatim>\<open>delete\<close>: nothing for \<^verbatim>\<open>nullptr\<close>, a fault for an
  address that holds no package.
\<close>

definition new_package :: "ptr \<Rightarrow> package \<Rightarrow> world \<Rightarrow> world" where
  "new_package p pkg w = (if p = 0 then w else w\<lparr>packages := (packages w)(p \<mapsto> pkg)\<rparr>)"

definition delete_package :: "ptr \<Rightarrow> world \<Rightarrow> fault + world" where
  "delete_package p w =
     (if p = 0 then Inr w
      else case packages w p of
             None \<Rightarrow> Inl DoubleFree
           | Some pkg \<Rightarrow> Inr (emit (EvDelete p) (w\<lparr>packages := (packages w)(p := None)\<rparr>)))"

fun delete_each :: "PackageSet \<Rightarrow> world \<Rightarrow> fault + world" where
  "delete_each [] w = Inr w"
| "delete_each (pPackage # rest) w = bindr (delete_package pPackage w) (delete_each rest)"

fun delete_items :: "PackagesMap \<Rightarrow> world \<Rightarrow> fault + world" where
  "delete_items [] w = Inr w"
| "delete_items (Item # rest) w = bindr (delete_each (snd Item) w) (delete_items rest)"

section \<open>The callback packages\<close>

text \<open>
  \<^verbatim>\<open>HandleAction\<close>, dispatched on the dynamic type of the package at address \<open>this\<close>.
  The callback info is passed by pointer in the source, so the model returns it.
\<close>

definition FunctionPtr_HandleAction ::
  "ptr \<Rightarrow> package \<Rightarrow> AkCallbackType \<Rightarrow> AkCallbackInfo \<Rightarrow> world \<Rightarrow> fault + (AkCallbackInfo \<times> world)" where
  "FunctionPtr_HandleAction this pkg in_eType info w =
     (if pfnUserCallback pkg \<noteq> 0 then
        let info1 = info\<lparr>pCookie := pUserCookie pkg\<rparr>;
            w1 = emit (EvUserCall (pfnUserCallback pkg) in_eType info1) w;
            info2 = userFunctions w (pfnUserCallback pkg) in_eType info1
        in Inr (info2\<lparr>pCookie := this\<rparr>, w1)
      else Inr (info, w))"

definition BlueprintDelegate_HandleAction ::
  "ptr \<Rightarrow> package \<Rightarrow> AkCallbackType \<Rightarrow> AkCallbackInfo \<Rightarrow> world \<Rightarrow> fault + (AkCallbackInfo \<times> world)" where
  "BlueprintDelegate_HandleAction this pkg in_eType info w =
     (if BlueprintCallback pkg \<noteq> 0 then
        Inr (info, emit (EvAsyncTask (BlueprintCallback pkg) in_eType info) w)
      else Inr (info, w))"

definition LatentAction_HandleAction ::
  "ptr \<Rightarrow> package \<Rightarrow> AkCallbackType \<Rightarrow> AkCallbackInfo \<Rightarrow> world \<Rightarrow> fault + (AkCallbackInfo \<times> world)" where
  "LatentAction_HandleAction this pkg in_eType info w =
     (if EndOfEventLatentAction pkg \<noteq> 0 then
        case latentActions w (EndOfEventLatentAction pkg) of
          None \<Rightarrow> Inl UseAfterFree
        | Some finished \<Rightarrow>
            Inr (info, w\<lparr>latentActions := (latentActions w)(EndOfEventLatentAction pkg \<mapsto> True)\<rparr>)
      else Inr (info, w))"

definition HandleAction ::
  "ptr \<Rightarrow> package \<Rightarrow> AkCallbackType \<Rightarrow> AkCallbackInfo \<Rightarrow> world \<Rightarrow> fault + (AkCallbackInfo \<times> world)" where
  "HandleAction this pkg in_eType info w =
     (case pkg of
        FAkFunctionPtrEventCallbackPackage f c u \<Rightarrow> FunctionPtr_HandleAction this pkg in_eType info w
      | FAkBlueprintDelegateEventCallbackPackage f d \<Rightarrow> BlueprintDelegate_HandleAction this pkg in_eType info w
      | FAkLatentActionEventCallbackPackage f a \<Rightarrow> LatentAction_HandleAction this pkg in_eType info w)"

section \<open>The registry\<close>

definition GetInstance :: "world \<Rightarrow> ptr" where
  "GetInstance w = Instance w"

text \<open>
  \<^verbatim>\<open>RemovePackageFromSet\<close>. Both callers pass as \<^verbatim>\<open>in_pPackageSet\<close> the address that
  \<^verbatim>\<open>Find(in_gameObjID)\<close> returned, so the set is written back under that key.
\<close>

definition RemovePackageFromSet ::
  "PackageSet \<Rightarrow> ptr \<Rightarrow> AkGameObjectID \<Rightarrow> PackagesMap \<Rightarrow> PackagesMap" where
  "RemovePackageFromSet in_PackageSet in_pPackage in_gameObjID m =
     (let S = TSet_Remove in_pPackage in_PackageSet;
          m1 = TMap_Assign in_gameObjID S m
      in if Optimize_Value = MemoryUsage then
           (if TSet_Num S = 0 then TMap_Remove in_gameObjID m1 else m1)
         else m1)"

text \<open>
  The set that a thread finds for a game object when it looks it up in the registry
  that \<open>Instance\<close> points to.
\<close>

definition visible_set :: "AkGameObjectID \<Rightarrow> world \<Rightarrow> PackageSet option" where
  "visible_set g w =
     (case managers w (Instance w) of None \<Rightarrow> None | Some m \<Rightarrow> TMap_Find g m)"

text \<open>The static trampoline that the audio engine calls for every event.\<close>

definition AkComponentCallback ::
  "AkCallbackType \<Rightarrow> AkCallbackInfo \<Rightarrow> world \<Rightarrow> fault + (AkCallbackInfo \<times> world)" where
  "AkComponentCallback in_eType info w =
     (let pPackage = pCookie info in
      if Instance w \<noteq> 0 \<and> pPackage \<noteq> 0 then
        let objID = gameObjID info in
        case managers w (Instance w) of
          None \<Rightarrow> Inl UseAfterFree
        | Some m \<Rightarrow>
            let (deletePackage, w1) =
                  (case TMap_Find objID m of
                     Some pPackageSet \<Rightarrow>
                       if in_eType = AK_EndOfEvent then
                         (True, emit (EvMapRemove pPackage objID)
                                  (store_map (Instance w)
                                     (RemovePackageFromSet pPackageSet pPackage objID m) w))
                       else (False, w)
                   | None \<Rightarrow> (False, w))
            in case packages w1 pPackage of
                 None \<Rightarrow> Inl UseAfterFree
               | Some pkg \<Rightarrow>
                   bindr (if uUserFlags pkg AND in_eType \<noteq> 0 then
                            HandleAction pPackage pkg in_eType info
                              (emit (EvHandleAction pPackage in_eType (visible_set objID w1)) w1)
                          else Inr (info, w1))
                     (\<lambda>(info2, w2).
                        if deletePackage then
                          bindr (delete_package pPackage w2) (\<lambda>w3. Inr (info2, w3))
                        else Inr (info2, w2))
      else Inr (info, w))"

text \<open>
  The constructor, run for a new registry object at address \<open>this\<close>: its map starts
  empty. The destructor deletes every package of every set, clears \<open>Instance\<close> and
  ends the object's lifetime.
\<close>

definition constructor :: "ptr \<Rightarrow> world \<Rightarrow> world" where
  "constructor this w =
     (let w0 = store_map this [] w;
          w1 = (if Instance w0 \<noteq> 0 then
                  emit (EvLogError ''FAkComponentCallbackManager has already been instantiated.'') w0
                else w0)
      in w1\<lparr>Instance := this\<rparr>)"

definition destructor :: "ptr \<Rightarrow> world \<Rightarrow> fault + world" where
  "destructor this w =
     (case managers w this of
        None \<Rightarrow> Inl UseAfterFree
      | Some m \<Rightarrow>
          bindr (delete_items m w)
            (\<lambda>w1. Inr (w1\<lparr>Instance := 0, managers := (managers w1)(this := None)\<rparr>)))"

text \<open>
  The three overloads of \<^verbatim>\<open>CreateCallbackPackage\<close> differ in the package they build;
  \<open>pPackage\<close> is the address the allocator answered with. The flags that the latent
  action's constructor passes to the base class are set in the class declaration, which
  is not in this source file, so they are an argument here.
\<close>

definition CreateCallbackPackage ::
  "ptr \<Rightarrow> ptr \<Rightarrow> package \<Rightarrow> AkGameObjectID \<Rightarrow> world \<Rightarrow> fault + (ptr \<times> world)" where
  "CreateCallbackPackage this pPackage pkg in_gameObjID w =
     (let w1 = new_package pPackage pkg w in
      if pPackage \<noteq> 0 then
        case managers w1 this of
          None \<Rightarrow> Inl UseAfterFree
        | Some m \<Rightarrow>
            let (S, m1) = TMap_FindOrAdd in_gameObjID m
            in Inr (pPackage, store_map this (TMap_Assign in_gameObjID (TSet_Add pPackage S) m1) w1)
      else Inr (pPackage, w1))"

definition CreateCallbackPackage_FunctionPtr ::
  "ptr \<Rightarrow> ptr \<Rightarrow> AkCallbackFunc \<Rightarrow> ptr \<Rightarrow> 32 word \<Rightarrow> AkGameObjectID \<Rightarrow> world \<Rightarrow> fault + (ptr \<times> world)" where
  "CreateCallbackPackage_FunctionPtr this pPackage in_cbFunc in_Cookie in_Flags in_gameObjID w =
     CreateCallbackPackage this pPackage
       (FAkFunctionPtrEventCallbackPackage in_Flags in_cbFunc in_Cookie) in_gameObjID w"

definition CreateCallbackPackage_BlueprintDelegate ::
  "ptr \<Rightarrow> ptr \<Rightarrow> FOnAkPostEventCallback \<Rightarrow> 32 word \<Rightarrow> AkGameObjectID \<Rightarrow> world \<Rightarrow> fault + (ptr \<times> world)" where
  "CreateCallbackPackage_BlueprintDelegate this pPackage in_BlueprintCallback in_Flags in_gameObjID w =
     CreateCallbackPackage this pPackage
       (FAkBlueprintDelegateEventCallbackPackage in_Flags in_BlueprintCallback) in_gameObjID w"

definition CreateCallbackPackage_LatentAction ::
  "32 word \<Rightarrow> ptr \<Rightarrow> ptr \<Rightarrow> ptr \<Rightarrow> AkGameObjectID \<Rightarrow> world \<Rightarrow> fault + (ptr \<times> world)" where
  "CreateCallbackPackage_LatentAction latentFlags this pPackage LatentAction in_gameObjID w =
     CreateCallbackPackage this pPackage
       (FAkLatentActionEventCallbackPackage latentFlags LatentAction) in_gameObjID w"

definition RemoveCallbackPackage :: "ptr \<Rightarrow> ptr \<Rightarrow> AkGameObjectID \<Rightarrow> world \<Rightarrow> fault + world" where
  "RemoveCallbackPackage this in_Package in_gameObjID w =
     (case managers w this of
        None \<Rightarrow> Inl UseAfterFree
      | Some m \<Rightarrow>
          let w1 = (case TMap_Find in_gameObjID m of
                      Some pPackageSet \<Rightarrow>
                        emit (EvMapRemove in_Package in_gameObjID)
                          (store_map this (RemovePackageFromSet pPackageSet in_Package in_gameObjID m) w)
                    | None \<Rightarrow> w)
          in delete_package in_Package w1)"

definition RegisterGameObject :: "ptr \<Rightarrow> AkGameObjectID \<Rightarrow> world \<Rightarrow> fault + world" where
  "RegisterGameObject this in_gameObjID w =
     (if Optimize_Value = Speed then
        case managers w this of
          None \<Rightarrow> Inl UseAfterFree
        | Some m \<Rightarrow> Inr (store_map this (snd (TMap_FindOrAdd in_gameObjID m)) w)
      else Inr w)"

definition UnregisterGameObject :: "ptr \<Rightarrow> AkGameObjectID \<Rightarrow> world \<Rightarrow> fault + world" where
  "UnregisterGameObject this in_gameObjID w =
     (let w0 = emit (EvCancelEventCallbackGameObject in_gameObjID) w in
      case managers w0 this of
        None \<Rightarrow> Inl UseAfterFree
      | Some m \<Rightarrow>
          (case TMap_Find in_gameObjID m of
             Some pPackageSet \<Rightarrow>
               bindr (delete_each pPackageSet w0)
                 (\<lambda>w1. Inr (store_map this (TMap_Remove in_gameObjID m) w1))
           | None \<Rightarrow> Inr w0))"

definition HasActiveEvents :: "ptr \<Rightarrow> AkGameObjectID \<Rightarrow> world \<Rightarrow> fault + bool" where
  "HasActiveEvents this in_gameObjID w =
     (case managers w this of
        None \<Rightarrow> Inl UseAfterFree
      | Some m \<Rightarrow>
          Inr (case TMap_Find in_gameObjID m of
                 Some pPackageSet \<Rightarrow> TSet_Num pPackageSet > 0
               | None \<Rightarrow> False))"

section \<open>Clients of the registry\<close>

text \<open>
  The store at program start: no registry has been constructed and nothing is allocated.
  Its user functions overwrite the cookie field of the callback info they are handed, as
  a user function is free to do.
\<close>

definition initial_world :: world where
  "initial_world =
     \<lparr>Instance = 0, managers = Map.empty, packages = Map.empty, latentActions = Map.empty,
      userFunctions = (\<lambda>f t info. info\<lparr>pCookie := 0\<rparr>), trace = []\<rparr>"

text \<open>
  One call of the public interface on the registry at \<open>this\<close>, or one call of the
  trampoline by the engine. A creating call names the address the allocator answers
  with. \<open>step\<close> performs the call and keeps the store; \<open>run\<close> performs a sequence of
  calls and stops at the first fault.
\<close>

datatype call =
    Create_FunctionPtr ptr AkCallbackFunc ptr "32 word" AkGameObjectID
  | Create_BlueprintDelegate ptr FOnAkPostEventCallback "32 word" AkGameObjectID
  | Create_LatentAction "32 word" ptr ptr AkGameObjectID
  | Remove ptr AkGameObjectID
  | Register AkGameObjectID
  | Unregister AkGameObjectID
  | Callback AkCallbackType AkCallbackInfo

fun step :: "ptr \<Rightarrow> call \<Rightarrow> world \<Rightarrow> fault + world" where
  "step this (Create_FunctionPtr p f c fl g) w =
     map_sum id snd (CreateCallbackPackage_FunctionPtr this p f c fl g w)"
| "step this (Create_BlueprintDelegate p d fl g) w =
     map_sum id snd (CreateCallbackPackage_BlueprintDelegate this p d fl g w)"
| "step this (Create_LatentAction lf p a g) w =
     map_sum id snd (CreateCallbackPackage_LatentAction lf this p a g w)"
| "step this (Remove h g) w = RemoveCallbackPackage this h g w"
| "step this (Register g) w = RegisterGameObject this g w"
| "step this (Unregister g) w = UnregisterGameObject this g w"
| "step this (Callback t info) w = map_sum id snd (AkComponentCallback t info w)"

fun run :: "ptr \<Rightarrow> call list \<Rightarrow> world \<Rightarrow> fault + world" where
  "run this [] w = Inr w"
| "run this (c # cs) w = bindr (step this c w) (run this cs)"

text \<open>The set that the registry at \<open>this\<close> holds for a game object; empty when it holds none.\<close>

definition package_set :: "ptr \<Rightarrow> AkGameObjectID \<Rightarrow> world \<Rightarrow> PackageSet" where
  "package_set this g w =
     (case managers w this of
        None \<Rightarrow> []
      | Some m \<Rightarrow> (case TMap_Find g m of None \<Rightarrow> [] | Some S \<Rightarrow> S))"

text \<open>
  Every package that a map lists, and the ownership discipline of the data model: no
  package is listed twice, and every listed package is allocated.
\<close>

definition registered :: "PackagesMap \<Rightarrow> ptr list" where
  "registered m = concat (map snd m)"

definition owns_packages :: "PackagesMap \<Rightarrow> world \<Rightarrow> bool" where
  "owns_packages m w \<longleftrightarrow>
     distinct (registered m) \<and> list_all (\<lambda>p. p \<noteq> 0 \<and> packages w p \<noteq> None) (registered m)"

text \<open>No registry object holds an empty set.\<close>

definition no_empty_set :: "PackagesMap \<Rightarrow> bool" where
  "no_empty_set m \<longleftrightarrow> list_all (\<lambda>Item. snd Item \<noteq> []) m"

definition no_empty_sets :: "world \<Rightarrow> bool" where
  "no_empty_sets w \<longleftrightarrow> (\<forall>a m. managers w a = Some m \<longrightarrow> no_empty_set m)"

text \<open>
  A call that creates a package for game object \<open>g\<close> or removes one from it, and the
  membership of \<open>g\<close>'s set as the specification words it: the packages created for
  \<open>g\<close> and not yet removed. A creation whose allocation failed creates nothing.
\<close>

fun create_or_remove_for :: "AkGameObjectID \<Rightarrow> call \<Rightarrow> bool" where
  "create_or_remove_for g (Create_FunctionPtr p f c fl g') = (g' = g)"
| "create_or_remove_for g (Create_BlueprintDelegate p d fl g') = (g' = g)"
| "create_or_remove_for g (Create_LatentAction lf p a g') = (g' = g)"
| "create_or_remove_for g (Remove h g') = (g' = g)"
| "create_or_remove_for g c = False"

fun created_minus_removed :: "call list \<Rightarrow> ptr set \<Rightarrow> ptr set" where
  "created_minus_removed [] A = A"
| "created_minus_removed (Create_FunctionPtr p f c fl g # cs) A =
     created_minus_removed cs (if p = 0 then A else insert p A)"
| "created_minus_removed (Create_BlueprintDelegate p d fl g # cs) A =
     created_minus_removed cs (if p = 0 then A else insert p A)"
| "created_minus_removed (Create_LatentAction lf p a g # cs) A =
     created_minus_removed cs (if p = 0 then A else insert p A)"
| "created_minus_removed (Remove h g # cs) A = created_minus_removed cs (A - {h})"
| "created_minus_removed (c # cs) A = created_minus_removed cs A"

text \<open>
  A handler reads the latent action it points to; it can run when that action, if any,
  is still alive.
\<close>

definition handler_can_run :: "package \<Rightarrow> world \<Rightarrow> bool" where
  "handler_can_run pkg w =
     (case pkg of
        FAkLatentActionEventCallbackPackage fl a \<Rightarrow> a = 0 \<or> latentActions w a \<noteq> None
      | _ \<Rightarrow> True)"

text \<open>The events that a handler emits, as opposed to those of the registry itself.\<close>

fun handler_event :: "event \<Rightarrow> bool" where
  "handler_event (EvHandleAction p t S) = True"
| "handler_event (EvUserCall f t info) = True"
| "handler_event (EvAsyncTask d t info) = True"
| "handler_event e = False"

text \<open>The store after the packages of a list have been deleted one after the other.\<close>

definition deleted :: "ptr list \<Rightarrow> world \<Rightarrow> world" where
  "deleted ps w =
     w\<lparr>packages := (\<lambda>p. if p \<in> set ps then None else packages w p),
       trace := trace w @ map EvDelete ps\<rparr>"

text \<open>
  A store with one registry at address 100 that holds a function-pointer package for
  game object 7 and a latent-action package for game object 8.
\<close>

definition two_objects_world :: world where
  "two_objects_world =
     \<lparr>Instance = 100,
      managers = [100 \<mapsto> [(7, [1]), (8, [2])]],
      packages = [1 \<mapsto> FAkFunctionPtrEventCallbackPackage 1 5 9,
                  2 \<mapsto> FAkLatentActionEventCallbackPackage 1 0],
      latentActions = Map.empty, userFunctions = (\<lambda>f t info. info\<lparr>pCookie := 0\<rparr>), trace = []\<rparr>"

text \<open>A store with one registry at address 100 that holds two packages for game object 7.\<close>

definition two_packages_world :: world where
  "two_packages_world =
     \<lparr>Instance = 100,
      managers = [100 \<mapsto> [(7, [1, 2])]],
      packages = [1 \<mapsto> FAkFunctionPtrEventCallbackPackage 1 5 9,
                  2 \<mapsto> FAkFunctionPtrEventCallbackPackage 1 5 9],
      latentActions = Map.empty, userFunctions = (\<lambda>f t info. info\<lparr>pCookie := 0\<rparr>), trace = []\<rparr>"

section \<open>Basic facts\<close>

lemmas container_defs =
  TMap_FindOrAdd_def TMap_Assign_def TMap_Find_def TMap_Remove_def
  TSet_Add_def TSet_Remove_def TSet_Num_def

lemmas create_defs =
  CreateCallbackPackage_FunctionPtr_def CreateCallbackPackage_BlueprintDelegate_def
  CreateCallbackPackage_LatentAction_def CreateCallbackPackage_def new_package_def

lemma bindr_simps [simp]:
  "bindr (Inl e) f = Inl e" "bindr (Inr x) f = f x"
  by (simp_all add: bindr_def)

lemma bindr_eq_Inr: "bindr r f = Inr y \<longleftrightarrow> (\<exists>x. r = Inr x \<and> f x = Inr y)"
  by (cases r) simp_all

lemma emit_fields [simp]:
  "Instance (emit e w) = Instance w" "managers (emit e w) = managers w"
  "packages (emit e w) = packages w" "latentActions (emit e w) = latentActions w"
  "userFunctions (emit e w) = userFunctions w" "trace (emit e w) = trace w @ [e]"
  by (simp_all add: emit_def)

lemma store_map_fields [simp]:
  "Instance (store_map a m w) = Instance w" "managers (store_map a m w) = (managers w)(a \<mapsto> m)"
  "packages (store_map a m w) = packages w" "latentActions (store_map a m w) = latentActions w"
  "userFunctions (store_map a m w) = userFunctions w" "trace (store_map a m w) = trace w"
  by (simp_all add: store_map_def)

lemma deleted_fields [simp]:
  "Instance (deleted ps w) = Instance w" "managers (deleted ps w) = managers w"
  "packages (deleted ps w) p = (if p \<in> set ps then None else packages w p)"
  "latentActions (deleted ps w) = latentActions w"
  "userFunctions (deleted ps w) = userFunctions w"
  "trace (deleted ps w) = trace w @ map EvDelete ps"
  by (simp_all add: deleted_def)

lemma two_objects_world_reached:
  "run 100 [Create_FunctionPtr 1 5 9 1 7, Create_LatentAction 1 2 0 8] (constructor 100 initial_world)
     = Inr two_objects_world"
  by (simp add: constructor_def initial_world_def two_objects_world_def create_defs container_defs
        store_map_def fun_upd_twist)

subsection \<open>Deleting packages\<close>

lemma delete_package_live:
  "p \<noteq> 0 \<Longrightarrow> packages w p \<noteq> None \<Longrightarrow> delete_package p w = Inr (deleted [p] w)"
  by (auto simp: delete_package_def deleted_def emit_def fun_eq_iff)


lemma deleted_Cons: "deleted ps (deleted [p] w) = deleted (p # ps) w"
  by (auto simp: deleted_def fun_eq_iff)

lemma delete_each_live:
  "distinct ps \<Longrightarrow> list_all (\<lambda>p. p \<noteq> 0 \<and> packages w p \<noteq> None) ps \<Longrightarrow>
   delete_each ps w = Inr (deleted ps w)"
proof (induction ps arbitrary: w)
  case Nil
  show ?case by (simp add: deleted_def)
next
  case (Cons p ps)
  have live: "list_all (\<lambda>q. q \<noteq> 0 \<and> packages (deleted [p] w) q \<noteq> None) ps"
    using Cons.prems by (auto simp: list_all_iff)
  have "delete_each (p # ps) w = delete_each ps (deleted [p] w)"
    using Cons.prems by (simp add: delete_package_live)
  also have "\<dots> = Inr (deleted ps (deleted [p] w))"
    using Cons.IH [OF _ live] Cons.prems by simp
  finally show ?case by (simp add: deleted_Cons)
qed

lemma delete_each_append:
  "delete_each (ps @ qs) w = bindr (delete_each ps w) (delete_each qs)"
proof (induction ps arbitrary: w)
  case Nil
  show ?case by simp
next
  case (Cons p ps)
  show ?case by (cases "delete_package p w") (simp_all add: Cons.IH)
qed

lemma delete_items_registered: "delete_items m w = delete_each (registered m) w"
proof (induction m arbitrary: w)
  case Nil
  show ?case by (simp add: registered_def)
next
  case (Cons Item m)
  have "registered (Item # m) = snd Item @ registered m"
    by (simp add: registered_def)
  then show ?case
    by (cases "delete_each (snd Item) w") (simp_all add: delete_each_append Cons.IH)
qed

subsection \<open>Creating and removing packages\<close>

lemma map_of_RemovePackageFromSet:
  "map_of (RemovePackageFromSet S p g m) g' =
     (if g' = g then (if removeAll p S = [] then None else Some (removeAll p S)) else map_of m g')"
  by (simp add: RemovePackageFromSet_def Optimize_Value_def container_defs Let_def
        update_conv' delete_conv')

lemma map_of_FindOrAdd_Assign:
  "map_of (TMap_Assign g (TSet_Add p (fst (TMap_FindOrAdd g m))) (snd (TMap_FindOrAdd g m))) g' =
     (if g' = g then Some (TSet_Add p (case map_of m g of None \<Rightarrow> [] | Some S \<Rightarrow> S))
      else map_of m g')"
  by (auto simp: container_defs update_conv' map_add_def split: option.splits)

lemma CreateCallbackPackage_result:
  assumes "managers w this = Some m"
  shows "CreateCallbackPackage this p pkg g w =
           Inr (p, if p = 0 then w
                   else store_map this
                          (TMap_Assign g (TSet_Add p (fst (TMap_FindOrAdd g m))) (snd (TMap_FindOrAdd g m)))
                          (w\<lparr>packages := (packages w)(p \<mapsto> pkg)\<rparr>))"
  using assms by (simp add: CreateCallbackPackage_def new_package_def Let_def split: prod.splits)

lemma delete_package_frame:
  assumes "delete_package p w = Inr w'"
  shows "managers w' = managers w" "Instance w' = Instance w" "latentActions w' = latentActions w"
    "userFunctions w' = userFunctions w"
  using assms by (auto simp: delete_package_def split: if_splits option.splits)


lemma package_set_store_map [simp]:
  "package_set this g (store_map this m' w) = (case map_of m' g of None \<Rightarrow> [] | Some S \<Rightarrow> S)"
  by (simp add: package_set_def TMap_Find_def)

lemma package_set_emit [simp]: "package_set this g (emit e w) = package_set this g w"
  by (simp add: package_set_def)

lemma map_sum_snd_eq_Inr: "map_sum id snd r = Inr w' \<longleftrightarrow> (\<exists>h. r = Inr (h, w'))"
  by (cases r) auto

lemma package_set_cong:
  "managers w' = managers w \<Longrightarrow> package_set this g w' = package_set this g w"
  by (simp add: package_set_def)

lemma package_set_live:
  "managers w this = Some m \<Longrightarrow> package_set this g w = (case map_of m g of None \<Rightarrow> [] | Some S \<Rightarrow> S)"
  by (simp add: package_set_def TMap_Find_def)

lemma package_set_Create:
  assumes "managers w this = Some m" and "CreateCallbackPackage this p pkg g w = Inr (h, w')"
  shows "managers w' this \<noteq> None"
    and "set (package_set this g w') =
           (if p = 0 then set (package_set this g w) else insert p (set (package_set this g w)))"
proof -
  show "managers w' this \<noteq> None"
    using assms by (auto simp: CreateCallbackPackage_result split: if_splits)
  show "set (package_set this g w') =
           (if p = 0 then set (package_set this g w) else insert p (set (package_set this g w)))"
  proof (cases "p = 0")
    case True
    then show ?thesis using assms by (simp add: CreateCallbackPackage_result)
  next
    case False
    then have "package_set this g w' = TSet_Add p (package_set this g w)"
      using assms by (auto simp: CreateCallbackPackage_result map_of_FindOrAdd_Assign package_set_live)
    then show ?thesis using False by (auto simp: TSet_Add_def)
  qed
qed

lemma package_set_Remove:
  assumes "managers w this = Some m" and "RemoveCallbackPackage this h g w = Inr w'"
  shows "managers w' this \<noteq> None"
    and "set (package_set this g w') = set (package_set this g w) - {h}"
proof -
  define w1 where "w1 = (case TMap_Find g m of
                      Some pPackageSet \<Rightarrow>
                        emit (EvMapRemove h g)
                          (store_map this (RemovePackageFromSet pPackageSet h g m) w)
                    | None \<Rightarrow> w)"
  have del: "delete_package h w1 = Inr w'"
    using assms by (simp add: RemoveCallbackPackage_def w1_def)
  have m': "managers w' = managers w1"
    using del by (rule delete_package_frame)
  have "managers w1 this \<noteq> None"
    using assms(1) by (simp add: w1_def split: option.splits)
  then show "managers w' this \<noteq> None" by (simp add: m')
  have "package_set this g w1 = removeAll h (package_set this g w)"
  proof (cases "map_of m g")
    case None
    then show ?thesis using assms(1) by (simp add: w1_def TMap_Find_def package_set_live)
  next
    case (Some S)
    have "package_set this g w1 = package_set this g (store_map this (RemovePackageFromSet S h g m) w)"
      using Some by (simp add: w1_def TMap_Find_def)
    then show ?thesis
      using Some assms(1) by (simp add: map_of_RemovePackageFromSet package_set_live)
  qed
  then show "set (package_set this g w') = set (package_set this g w) - {h}"
    by (simp add: package_set_cong [OF m'])
qed

lemma step_create_or_remove:
  assumes "managers w this = Some m" and "create_or_remove_for g c" and "step this c w = Inr w'"
  shows "managers w' this \<noteq> None"
    and "\<And>cs. created_minus_removed (c # cs) (set (package_set this g w))
             = created_minus_removed cs (set (package_set this g w'))"
proof -
  have "managers w' this \<noteq> None \<and>
        (\<forall>cs. created_minus_removed (c # cs) (set (package_set this g w))
             = created_minus_removed cs (set (package_set this g w')))"
  proof (cases c)
    case (Create_FunctionPtr p f k fl g')
    then obtain h where "CreateCallbackPackage this p (FAkFunctionPtrEventCallbackPackage fl f k) g w = Inr (h, w')"
      using assms(2,3) by (auto simp: CreateCallbackPackage_FunctionPtr_def map_sum_snd_eq_Inr)
    from package_set_Create [OF assms(1) this] show ?thesis
      by (simp add: Create_FunctionPtr)
  next
    case (Create_BlueprintDelegate p d fl g')
    then obtain h where "CreateCallbackPackage this p (FAkBlueprintDelegateEventCallbackPackage fl d) g w = Inr (h, w')"
      using assms(2,3) by (auto simp: CreateCallbackPackage_BlueprintDelegate_def map_sum_snd_eq_Inr)
    from package_set_Create [OF assms(1) this] show ?thesis
      by (simp add: Create_BlueprintDelegate)
  next
    case (Create_LatentAction lf p a g')
    then obtain h where "CreateCallbackPackage this p (FAkLatentActionEventCallbackPackage lf a) g w = Inr (h, w')"
      using assms(2,3) by (auto simp: CreateCallbackPackage_LatentAction_def map_sum_snd_eq_Inr)
    from package_set_Create [OF assms(1) this] show ?thesis
      by (simp add: Create_LatentAction)
  next
    case (Remove h g')
    then have "RemoveCallbackPackage this h g w = Inr w'"
      using assms(2,3) by simp
    from package_set_Remove [OF assms(1) this] show ?thesis
      by (simp add: Remove)
  qed (use assms(2) in simp_all)
  then show "managers w' this \<noteq> None"
    and "\<And>cs. created_minus_removed (c # cs) (set (package_set this g w))
             = created_minus_removed cs (set (package_set this g w'))"
    by simp_all
qed

lemma run_create_or_remove:
  assumes "managers w this \<noteq> None" and "list_all (create_or_remove_for g) cs" and "run this cs w = Inr w'"
  shows "managers w' this \<noteq> None \<and> set (package_set this g w') = created_minus_removed cs (set (package_set this g w))"
  using assms
proof (induction cs arbitrary: w)
  case Nil
  then show ?case by simp
next
  case (Cons c cs)
  obtain m where m: "managers w this = Some m" using Cons.prems(1) by auto
  obtain w1 where w1: "step this c w = Inr w1" and rest: "run this cs w1 = Inr w'"
    using Cons.prems(3) by (auto simp: bindr_eq_Inr)
  have c: "create_or_remove_for g c" and cs: "list_all (create_or_remove_for g) cs"
    using Cons.prems(2) by simp_all
  from step_create_or_remove [OF m c w1] Cons.IH [OF _ cs rest]
  show ?case by simp
qed


lemma created_minus_removed_Removes:
  "created_minus_removed (map (\<lambda>p. Remove p g) ps) A = A - set ps"
  by (induction ps arbitrary: A) auto

lemma HasActiveEvents_package_set:
  "managers w this \<noteq> None \<Longrightarrow> HasActiveEvents this g w = Inr (package_set this g w \<noteq> [])"
  by (auto simp: HasActiveEvents_def package_set_def TSet_Num_def split: option.splits)

subsection \<open>Maps without empty sets, and what handlers leave alone\<close>

lemma no_empty_set_iff: "no_empty_set m \<longleftrightarrow> (\<forall>Item \<in> set m. snd Item \<noteq> [])"
  by (simp add: no_empty_set_def list_all_iff)

lemma set_update_subset: "set (AList.update k v al) \<subseteq> insert (k, v) (set al)"
  by (induction al) auto

lemma set_delete_subset: "set (AList.delete k al) \<subseteq> set al"
  by (auto simp: AList.delete_eq)

lemma update_append_new:
  "map_of al k = None \<Longrightarrow> AList.update k v (al @ [(k, u)]) = al @ [(k, v)]"
  by (induction al) (auto split: if_splits)

lemma no_empty_set_RemovePackageFromSet:
  assumes "no_empty_set m"
  shows "no_empty_set (RemovePackageFromSet S p g m)"
proof (cases "removeAll p S = []")
  case True
  then have "RemovePackageFromSet S p g m = AList.delete g m"
    by (simp add: RemovePackageFromSet_def Optimize_Value_def container_defs Let_def delete_update_same)
  then show ?thesis
    using assms set_delete_subset [of g m] by (auto simp: no_empty_set_iff)
next
  case False
  then have "RemovePackageFromSet S p g m = AList.update g (removeAll p S) m"
    by (simp add: RemovePackageFromSet_def Optimize_Value_def container_defs Let_def)
  then show ?thesis
    using assms False set_update_subset [of g "removeAll p S" m] by (auto simp: no_empty_set_iff)
qed

lemma no_empty_set_FindOrAdd_Assign:
  assumes "no_empty_set m"
  shows "no_empty_set (TMap_Assign g (TSet_Add p (fst (TMap_FindOrAdd g m))) (snd (TMap_FindOrAdd g m)))"
proof (cases "map_of m g")
  case None
  then have "TMap_Assign g (TSet_Add p (fst (TMap_FindOrAdd g m))) (snd (TMap_FindOrAdd g m)) = m @ [(g, [p])]"
    by (simp add: container_defs update_append_new)
  then show ?thesis using assms by (simp add: no_empty_set_def)
next
  case (Some S)
  then have "TMap_Assign g (TSet_Add p (fst (TMap_FindOrAdd g m))) (snd (TMap_FindOrAdd g m))
               = AList.update g (TSet_Add p S) m"
    by (simp add: TMap_Assign_def TMap_FindOrAdd_def)
  moreover have "TSet_Add p S \<noteq> []"
    by (auto simp: TSet_Add_def)
  ultimately show ?thesis
    using assms set_update_subset [of g "TSet_Add p S" m] by (auto simp: no_empty_set_iff)
qed

lemma no_empty_set_TMap_Remove: "no_empty_set m \<Longrightarrow> no_empty_set (TMap_Remove g m)"
  using set_delete_subset [of g m] by (auto simp: no_empty_set_iff TMap_Remove_def)

lemma no_empty_sets_store_map:
  "no_empty_sets w \<Longrightarrow> no_empty_set m \<Longrightarrow> no_empty_sets (store_map a m w)"
  by (simp add: no_empty_sets_def)

lemma no_empty_sets_cong: "managers w' = managers w \<Longrightarrow> no_empty_sets w' = no_empty_sets w"
  by (simp add: no_empty_sets_def)

lemma no_empty_sets_live: "no_empty_sets w \<Longrightarrow> managers w a = Some m \<Longrightarrow> no_empty_set m"
  by (auto simp: no_empty_sets_def)

lemma delete_each_frame:
  "delete_each ps w = Inr w' \<Longrightarrow> managers w' = managers w"
proof (induction ps arbitrary: w)
  case Nil
  then show ?case by simp
next
  case (Cons p ps)
  then obtain w1 where "delete_package p w = Inr w1" and "delete_each ps w1 = Inr w'"
    by (auto simp: bindr_eq_Inr)
  then show ?case using Cons.IH delete_package_frame(1) by metis
qed

lemma HandleAction_frame:
  assumes "HandleAction p pkg t info w = Inr (info', w')"
  shows "managers w' = managers w" and "packages w' = packages w" and "Instance w' = Instance w"
    and "\<exists>hs. trace w' = trace w @ hs \<and> list_all handler_event hs"
  using assms
  by (auto simp: HandleAction_def FunctionPtr_HandleAction_def BlueprintDelegate_HandleAction_def
        LatentAction_HandleAction_def Let_def split: package.splits if_splits option.splits)

lemma HandleAction_returns:
  "handler_can_run pkg w \<Longrightarrow> \<exists>info' w'. HandleAction p pkg t info w = Inr (info', w')"
  by (auto simp: HandleAction_def FunctionPtr_HandleAction_def BlueprintDelegate_HandleAction_def
        LatentAction_HandleAction_def handler_can_run_def Let_def split: package.splits)

subsection \<open>The trampoline, step by step\<close>

lemma AkComponentCallback_idle:
  "Instance w = 0 \<or> pCookie info = 0 \<Longrightarrow> AkComponentCallback t info w = Inr (info, w)"
  by (auto simp: AkComponentCallback_def Let_def)

lemma AkComponentCallback_unfold:
  fixes t info w m
  defines "p \<equiv> pCookie info" and "g \<equiv> gameObjID info"
  defines "del \<equiv> TMap_Find g m \<noteq> None \<and> t = AK_EndOfEvent"
  defines "w1 \<equiv> if del then emit (EvMapRemove p g)
                     (store_map (Instance w) (RemovePackageFromSet (the (TMap_Find g m)) p g m) w)
                 else w"
  assumes "Instance w \<noteq> 0" and "pCookie info \<noteq> 0" and "managers w (Instance w) = Some m"
  shows "AkComponentCallback t info w =
           (case packages w p of
              None \<Rightarrow> Inl UseAfterFree
            | Some pkg \<Rightarrow>
                bindr (if uUserFlags pkg AND t \<noteq> 0 then
                         HandleAction p pkg t info (emit (EvHandleAction p t (visible_set g w1)) w1)
                       else Inr (info, w1))
                  (\<lambda>r. if del then bindr (delete_package p (snd r)) (\<lambda>w3. Inr (fst r, w3))
                       else Inr r))"
  using assms(5-)
  by (auto simp: AkComponentCallback_def Let_def p_def g_def del_def w1_def case_prod_beta
        split: option.splits intro!: arg_cong2 [where f = bindr])


lemma handler_can_run_cong:
  "latentActions w' = latentActions w \<Longrightarrow> handler_can_run pkg w' = handler_can_run pkg w"
  by (simp add: handler_can_run_def split: package.splits)

lemma AkComponentCallback_returns:
  assumes "Instance w \<noteq> 0" and "pCookie info \<noteq> 0" and "managers w (Instance w) = Some m"
    and "packages w (pCookie info) = Some pkg" and "handler_can_run pkg w"
  shows "\<exists>info' w'. AkComponentCallback t info w = Inr (info', w')"
proof -
  let ?p = "pCookie info" and ?g = "gameObjID info"
  define del where "del \<longleftrightarrow> TMap_Find ?g m \<noteq> None \<and> t = AK_EndOfEvent"
  define m1 where "m1 = RemovePackageFromSet (the (TMap_Find ?g m)) ?p ?g m"
  define w1 where "w1 = (if del then emit (EvMapRemove ?p ?g) (store_map (Instance w) m1 w) else w)"
  have unf: "AkComponentCallback t info w =
           (case packages w ?p of
              None \<Rightarrow> Inl UseAfterFree
            | Some pkg \<Rightarrow>
                bindr (if uUserFlags pkg AND t \<noteq> 0 then
                         HandleAction ?p pkg t info (emit (EvHandleAction ?p t (visible_set ?g w1)) w1)
                       else Inr (info, w1))
                  (\<lambda>r. if del then bindr (delete_package ?p (snd r)) (\<lambda>w3. Inr (fst r, w3))
                       else Inr r))"
    unfolding w1_def m1_def del_def by (rule AkComponentCallback_unfold [OF assms(1-3)])
  define h where "h = (if uUserFlags pkg AND t \<noteq> 0 then
              HandleAction ?p pkg t info (emit (EvHandleAction ?p t (visible_set ?g w1)) w1)
            else Inr (info, w1))"
  have fields1: "packages w1 = packages w" "latentActions w1 = latentActions w"
    by (simp_all add: w1_def)
  have "latentActions (emit (EvHandleAction ?p t (visible_set ?g w1)) w1) = latentActions w"
    using fields1(2) by simp
  from handler_can_run_cong [OF this, of pkg]
  have "handler_can_run pkg (emit (EvHandleAction ?p t (visible_set ?g w1)) w1)"
    using assms(5) by simp
  from HandleAction_returns [OF this, of ?p t info]
  obtain info2 w2 where h: "h = Inr (info2, w2)"
    unfolding h_def by (cases "uUserFlags pkg AND t \<noteq> 0") auto
  have "packages w2 = packages w1"
  proof (cases "uUserFlags pkg AND t \<noteq> 0")
    case True
    then have "HandleAction ?p pkg t info (emit (EvHandleAction ?p t (visible_set ?g w1)) w1) = Inr (info2, w2)"
      using h by (simp add: h_def)
    from HandleAction_frame(2) [OF this] show ?thesis by simp
  next
    case False
    then show ?thesis using h by (simp add: h_def)
  qed
  then have "delete_package ?p w2 = Inr (deleted [?p] w2)"
    using assms(2,4) fields1(1) by (simp add: delete_package_live)
  then have "bindr h (\<lambda>r. if del then bindr (delete_package ?p (snd r)) (\<lambda>w3. Inr (fst r, w3))
                       else Inr r) = Inr (info2, if del then deleted [?p] w2 else w2)"
    by (simp add: h)
  then show ?thesis
    unfolding unf assms(4) h_def by auto
qed

lemma AkComponentCallback_Inr:
  assumes "AkComponentCallback t info w = Inr (info', w')"
    and "Instance w \<noteq> 0" and "pCookie info \<noteq> 0"
  shows "\<exists>m pkg hs del.
           managers w (Instance w) = Some m \<and> packages w (pCookie info) = Some pkg
         \<and> del = (TMap_Find (gameObjID info) m \<noteq> None \<and> t = AK_EndOfEvent)
         \<and> managers w' =
             (if del then (managers w)(Instance w \<mapsto>
                 RemovePackageFromSet (the (TMap_Find (gameObjID info) m)) (pCookie info) (gameObjID info) m)
              else managers w)
         \<and> packages w' = (if del then (packages w)(pCookie info := None) else packages w)
         \<and> trace w' = trace w @ (if del then [EvMapRemove (pCookie info) (gameObjID info)] else [])
                         @ hs @ (if del then [EvDelete (pCookie info)] else [])
         \<and> list_all handler_event hs
         \<and> (hs \<noteq> [] \<longleftrightarrow> uUserFlags pkg AND t \<noteq> 0)
         \<and> Instance w' = Instance w
         \<and> (hs = [] \<or>
              (\<exists>hs'. hs = EvHandleAction (pCookie info) t (visible_set (gameObjID info) w') # hs'))"
proof -
  let ?p = "pCookie info" and ?g = "gameObjID info"
  obtain m where m: "managers w (Instance w) = Some m"
    using assms by (auto simp: AkComponentCallback_def Let_def split: option.splits)
  define del where "del \<longleftrightarrow> TMap_Find ?g m \<noteq> None \<and> t = AK_EndOfEvent"
  define m1 where "m1 = RemovePackageFromSet (the (TMap_Find ?g m)) ?p ?g m"
  define w1 where "w1 = (if del then emit (EvMapRemove ?p ?g) (store_map (Instance w) m1 w) else w)"
  have unf: "AkComponentCallback t info w =
           (case packages w ?p of
              None \<Rightarrow> Inl UseAfterFree
            | Some pkg \<Rightarrow>
                bindr (if uUserFlags pkg AND t \<noteq> 0 then
                         HandleAction ?p pkg t info (emit (EvHandleAction ?p t (visible_set ?g w1)) w1)
                       else Inr (info, w1))
                  (\<lambda>r. if del then bindr (delete_package ?p (snd r)) (\<lambda>w3. Inr (fst r, w3))
                       else Inr r))"
    unfolding w1_def m1_def del_def by (rule AkComponentCallback_unfold [OF assms(2,3) m])
  obtain pkg where pkg: "packages w ?p = Some pkg"
    using assms(1) unfolding unf by (cases "packages w ?p") auto
  define h where "h = (if uUserFlags pkg AND t \<noteq> 0 then
              HandleAction ?p pkg t info (emit (EvHandleAction ?p t (visible_set ?g w1)) w1)
            else Inr (info, w1))"
  have "bindr h (\<lambda>r. if del then bindr (delete_package ?p (snd r)) (\<lambda>w3. Inr (fst r, w3)) else Inr r)
          = Inr (info', w')"
    using assms(1) unfolding unf pkg h_def by simp
  then obtain r where r: "h = Inr r"
    "(if del then bindr (delete_package ?p (snd r)) (\<lambda>w3. Inr (fst r, w3)) else Inr r) = Inr (info', w')"
    unfolding bindr_eq_Inr by blast
  define info2 where "info2 = fst r"
  define w2 where "w2 = snd r"
  have h: "h = Inr (info2, w2)"
    using r(1) unfolding info2_def w2_def by simp
  have fin: "(if del then bindr (delete_package ?p w2) (\<lambda>w3. Inr (info2, w3)) else Inr (info2, w2))
                = Inr (info', w')"
    using r(2) unfolding info2_def w2_def by (cases del) simp_all
  have w2: "managers w2 = managers w1 \<and> packages w2 = packages w1 \<and> Instance w2 = Instance w1
            \<and> (\<exists>hs. trace w2 = trace w1 @ hs \<and> list_all handler_event hs
                  \<and> (hs \<noteq> [] \<longleftrightarrow> uUserFlags pkg AND t \<noteq> 0)
                  \<and> (hs = [] \<or> (\<exists>hs'. hs = EvHandleAction ?p t (visible_set ?g w1) # hs')))"
  proof (cases "uUserFlags pkg AND t \<noteq> 0")
    case True
    then have ha: "HandleAction ?p pkg t info (emit (EvHandleAction ?p t (visible_set ?g w1)) w1) = Inr (info2, w2)"
      using h by (simp add: h_def)
    from HandleAction_frame(4) [OF ha] obtain hs where
      "trace w2 = trace (emit (EvHandleAction ?p t (visible_set ?g w1)) w1) @ hs" and "list_all handler_event hs"
      by blast
    then have "trace w2 = trace w1 @ (EvHandleAction ?p t (visible_set ?g w1) # hs)
               \<and> list_all handler_event (EvHandleAction ?p t (visible_set ?g w1) # hs)
               \<and> (EvHandleAction ?p t (visible_set ?g w1) # hs \<noteq> [] \<longleftrightarrow> uUserFlags pkg AND t \<noteq> 0)
               \<and> (EvHandleAction ?p t (visible_set ?g w1) # hs = [] \<or>
                    (\<exists>hs'. EvHandleAction ?p t (visible_set ?g w1) # hs
                             = EvHandleAction ?p t (visible_set ?g w1) # hs'))"
      using True by simp
    then have "\<exists>hs. trace w2 = trace w1 @ hs \<and> list_all handler_event hs
                 \<and> (hs \<noteq> [] \<longleftrightarrow> uUserFlags pkg AND t \<noteq> 0)
                 \<and> (hs = [] \<or> (\<exists>hs'. hs = EvHandleAction ?p t (visible_set ?g w1) # hs'))"
      by (rule exI)
    then show ?thesis
      using HandleAction_frame(1-3) [OF ha] by simp
  next
    case False
    then have "w2 = w1" using h by (simp add: h_def)
    then show ?thesis using False by simp
  qed
  then obtain hs where hs: "trace w2 = trace w1 @ hs" "list_all handler_event hs"
    "hs \<noteq> [] \<longleftrightarrow> uUserFlags pkg AND t \<noteq> 0"
    "hs = [] \<or> (\<exists>hs'. hs = EvHandleAction ?p t (visible_set ?g w1) # hs')"
    by blast
  have fields1: "packages w1 = packages w" "Instance w1 = Instance w"
    "managers w1 = (if del then (managers w)(Instance w \<mapsto> m1) else managers w)"
    "trace w1 = trace w @ (if del then [EvMapRemove ?p ?g] else [])"
    by (simp_all add: w1_def)
  have w': "w' = (if del then deleted [?p] w2 else w2)"
  proof (cases del)
    case True
    have "delete_package ?p w2 = Inr (deleted [?p] w2)"
      using w2 pkg assms(3) fields1(1) by (simp add: delete_package_live)
    then show ?thesis using fin True by simp
  next
    case False
    then show ?thesis using fin by simp
  qed
  have ps': "packages w' = (if del then (packages w)(?p := None) else packages w)"
    using w2 fields1(1) by (auto simp: w' fun_eq_iff)
  have ms': "managers w' = (if del then (managers w)(Instance w \<mapsto> m1) else managers w)"
    using w2 fields1(3) by (simp add: w')
  have tr': "trace w' = trace w @ (if del then [EvMapRemove ?p ?g] else []) @ hs
                    @ (if del then [EvDelete ?p] else [])"
    using hs(1) fields1(4) by (simp add: w')
  have in': "Instance w' = Instance w"
    using w2 fields1(2) by (simp add: w')
  have "visible_set ?g w1 = visible_set ?g w'"
    unfolding visible_set_def ms' in' fields1(2,3) ..
  then have view: "hs = [] \<or> (\<exists>hs'. hs = EvHandleAction ?p t (visible_set ?g w') # hs')"
    using hs(4) by simp
  from ps' ms' tr' in' view show ?thesis
    using m pkg hs(2,3) unfolding m1_def del_def
    by (intro exI [of _ m] exI [of _ pkg] exI [of _ hs] exI conjI) (assumption | rule refl)+
qed

subsection \<open>Every call keeps the maps free of empty sets\<close>

lemma no_empty_sets_packages [simp]:
  "no_empty_sets (w\<lparr>packages := ps\<rparr>) = no_empty_sets w"
  by (simp add: no_empty_sets_def)

lemma no_empty_sets_emit [simp]: "no_empty_sets (emit e w) = no_empty_sets w"
  by (simp add: no_empty_sets_def)

lemma no_empty_sets_Create:
  assumes "no_empty_sets w" and "CreateCallbackPackage this p pkg g w = Inr (h, w')"
  shows "no_empty_sets w'"
proof (cases "p = 0")
  case True
  then show ?thesis using assms by (simp add: CreateCallbackPackage_def new_package_def)
next
  case False
  then obtain m where m: "managers w this = Some m"
    using assms(2) by (cases "managers w this") (auto simp: CreateCallbackPackage_def new_package_def)
  have "no_empty_set m" using assms(1) m by (rule no_empty_sets_live)
  then show ?thesis
    using assms False
    by (auto simp: CreateCallbackPackage_result [OF m] no_empty_set_FindOrAdd_Assign
          intro!: no_empty_sets_store_map)
qed

lemma no_empty_sets_Remove:
  assumes "no_empty_sets w" and "RemoveCallbackPackage this h g w = Inr w'"
  shows "no_empty_sets w'"
proof -
  obtain m where m: "managers w this = Some m"
    using assms(2) by (cases "managers w this") (auto simp: RemoveCallbackPackage_def)
  have nm: "no_empty_set m" using assms(1) m by (rule no_empty_sets_live)
  define w1 where "w1 = (case TMap_Find g m of
                      Some pPackageSet \<Rightarrow>
                        emit (EvMapRemove h g)
                          (store_map this (RemovePackageFromSet pPackageSet h g m) w)
                    | None \<Rightarrow> w)"
  have "no_empty_sets w1"
    using assms(1) nm
    by (auto simp: w1_def no_empty_set_RemovePackageFromSet intro!: no_empty_sets_store_map
          split: option.splits)
  moreover have "delete_package h w1 = Inr w'"
    using assms(2) m by (simp add: RemoveCallbackPackage_def w1_def)
  ultimately show ?thesis
    using no_empty_sets_cong [OF delete_package_frame(1)] by blast
qed

lemma no_empty_sets_Unregister:
  assumes "no_empty_sets w" and "UnregisterGameObject this g w = Inr w'"
  shows "no_empty_sets w'"
proof -
  let ?w0 = "emit (EvCancelEventCallbackGameObject g) w"
  obtain m where m: "managers w this = Some m"
    using assms(2) by (cases "managers w this") (auto simp: UnregisterGameObject_def Let_def)
  have nm: "no_empty_set m" using assms(1) m by (rule no_empty_sets_live)
  show ?thesis
  proof (cases "TMap_Find g m")
    case None
    then show ?thesis using assms m by (auto simp: UnregisterGameObject_def Let_def)
  next
    case (Some S)
    then obtain w1 where d: "delete_each S ?w0 = Inr w1"
      and w': "w' = store_map this (TMap_Remove g m) w1"
      using assms(2) m by (auto simp: UnregisterGameObject_def Let_def bindr_eq_Inr)
    have "managers w1 = managers w"
      using delete_each_frame [OF d] by simp
    then have "no_empty_sets w1"
      using assms(1) no_empty_sets_cong by blast
    then show ?thesis
      unfolding w' using nm by (intro no_empty_sets_store_map no_empty_set_TMap_Remove)
  qed
qed

lemma no_empty_sets_Callback:
  assumes "no_empty_sets w" and "AkComponentCallback t info w = Inr (info', w')"
  shows "no_empty_sets w'"
proof (cases "Instance w = 0 \<or> pCookie info = 0")
  case True
  then show ?thesis using assms by (simp add: AkComponentCallback_idle)
next
  case False
  then have "Instance w \<noteq> 0" and "pCookie info \<noteq> 0" by simp_all
  from AkComponentCallback_Inr [OF assms(2) this]
  obtain m del where m: "managers w (Instance w) = Some m"
    and m': "managers w' =
             (if del then (managers w)(Instance w \<mapsto>
                 RemovePackageFromSet (the (TMap_Find (gameObjID info) m)) (pCookie info) (gameObjID info) m)
              else managers w)"
    by blast
  have "no_empty_set m" using assms(1) m by (rule no_empty_sets_live)
  then have "no_empty_set (RemovePackageFromSet (the (TMap_Find (gameObjID info) m)) (pCookie info) (gameObjID info) m)"
    by (rule no_empty_set_RemovePackageFromSet)
  then show ?thesis
    using assms(1) m' by (auto simp: no_empty_sets_def split: if_splits)
qed

lemma no_empty_sets_step:
  assumes "no_empty_sets w" and "step this c w = Inr w'"
  shows "no_empty_sets w'"
proof (cases c)
  case (Create_FunctionPtr p f k fl g)
  then show ?thesis
    using assms no_empty_sets_Create
    by (auto simp: CreateCallbackPackage_FunctionPtr_def map_sum_snd_eq_Inr)
next
  case (Create_BlueprintDelegate p d fl g)
  then show ?thesis
    using assms no_empty_sets_Create
    by (auto simp: CreateCallbackPackage_BlueprintDelegate_def map_sum_snd_eq_Inr)
next
  case (Create_LatentAction lf p a g)
  then show ?thesis
    using assms no_empty_sets_Create
    by (auto simp: CreateCallbackPackage_LatentAction_def map_sum_snd_eq_Inr)
next
  case (Remove h g)
  then show ?thesis using assms no_empty_sets_Remove by auto
next
  case (Register g)
  then show ?thesis using assms by (simp add: RegisterGameObject_def Optimize_Value_def)
next
  case (Unregister g)
  then show ?thesis using assms no_empty_sets_Unregister by auto
next
  case (Callback t info)
  then show ?thesis
    using assms no_empty_sets_Callback by (auto simp: map_sum_snd_eq_Inr)
qed

lemma no_empty_sets_run:
  "no_empty_sets w \<Longrightarrow> run this cs w = Inr w' \<Longrightarrow> no_empty_sets w'"
proof (induction cs arbitrary: w)
  case Nil
  then show ?case by simp
next
  case (Cons c cs)
  then obtain w1 where "step this c w = Inr w1" and "run this cs w1 = Inr w'"
    by (auto simp: bindr_eq_Inr)
  then show ?case using Cons.IH Cons.prems(1) no_empty_sets_step by blast
qed

lemma no_empty_sets_constructor: "no_empty_sets w \<Longrightarrow> no_empty_sets (constructor this w)"
  by (auto simp: no_empty_sets_def constructor_def Let_def no_empty_set_def split: if_splits)

lemma no_empty_sets_destructor:
  assumes "no_empty_sets w" and "destructor this w = Inr w'"
  shows "no_empty_sets w'"
proof -
  obtain m w1 where "delete_items m w = Inr w1"
    and w': "w' = w1\<lparr>Instance := 0, managers := (managers w1)(this := None)\<rparr>"
    using assms(2) by (auto simp: destructor_def bindr_eq_Inr split: option.splits)
  then have "managers w1 = managers w"
    using delete_each_frame by (simp add: delete_items_registered)
  then show ?thesis
    using assms(1) by (auto simp: w' no_empty_sets_def split: if_splits)
qed

lemma no_empty_sets_initial: "no_empty_sets initial_world"
  by (simp add: no_empty_sets_def initial_world_def)

lemmas callback_defs =
  AkComponentCallback_def HandleAction_def FunctionPtr_HandleAction_def
  BlueprintDelegate_HandleAction_def LatentAction_HandleAction_def AK_EndOfEvent_def
  RemovePackageFromSet_def Optimize_Value_def delete_package_def

lemma two_packages_world_reached:
  "run 100 [Create_FunctionPtr 1 5 9 1 7, Create_FunctionPtr 2 5 9 1 7] (constructor 100 initial_world)
     = Inr two_packages_world"
  by (simp add: constructor_def initial_world_def two_packages_world_def create_defs container_defs
        store_map_def fun_upd_twist)

section \<open>The claims\<close>

text \<open>
  C6. \<^verbatim>\<open>HandleAction\<close> of the function-pointer package always returns. When a user
  function was supplied, that function is called once, with the cookie field set to the
  user's cookie, and on return the cookie field of the callback info is the package's own
  address again, whatever the user function did to it. When no function was supplied,
  the callback info and the store are unchanged.
\<close>

theorem FunctionPtr_HandleAction_cookie:
  "\<exists>info' w'.
     HandleAction this (FAkFunctionPtrEventCallbackPackage flags fn cookie) t info w = Inr (info', w')
     \<and> (fn \<noteq> 0 \<longrightarrow>
          w' = emit (EvUserCall fn t (info\<lparr>pCookie := cookie\<rparr>)) w
        \<and> info' = (userFunctions w fn t (info\<lparr>pCookie := cookie\<rparr>))\<lparr>pCookie := this\<rparr>
        \<and> pCookie info' = this)
     \<and> (fn = 0 \<longrightarrow> info' = info \<and> w' = w)"
  by (simp add: HandleAction_def FunctionPtr_HandleAction_def Let_def)

theorem FunctionPtr_HandleAction_cookie_witness:
  "(\<exists>info' w'.
      HandleAction 1 (FAkFunctionPtrEventCallbackPackage 1 5 9) 1
        \<lparr>pCookie = 1, gameObjID = 7\<rparr> two_objects_world = Inr (info', w')
      \<and> trace w' = [EvUserCall 5 1 \<lparr>pCookie = 9, gameObjID = 7\<rparr>]
      \<and> pCookie info' = 1)
   \<and> HandleAction 1 (FAkFunctionPtrEventCallbackPackage 1 0 9) 1
        \<lparr>pCookie = 1, gameObjID = 7\<rparr> two_objects_world
       = Inr (\<lparr>pCookie = 1, gameObjID = 7\<rparr>, two_objects_world)"
  using FunctionPtr_HandleAction_cookie [of 1 1 5 9 1 "\<lparr>pCookie = 1, gameObjID = 7\<rparr>" two_objects_world]
        FunctionPtr_HandleAction_cookie [of 1 1 0 9 1 "\<lparr>pCookie = 1, gameObjID = 7\<rparr>" two_objects_world]
  by (auto simp: two_objects_world_def)

text \<open>
  C7. When the registry owns its packages (each listed once, each allocated), the
  destructor returns, every package listed under any game object is freed and no other
  package is touched, \<open>Instance\<close> is null afterwards, and the registry object is gone.
\<close>

theorem destructor_frees_all:
  assumes "managers w this = Some m" and "owns_packages m w"
  shows "\<exists>w'. destructor this w = Inr w'
           \<and> (\<forall>p \<in> set (registered m). packages w' p = None)
           \<and> (\<forall>p. p \<notin> set (registered m) \<longrightarrow> packages w' p = packages w p)
           \<and> trace w' = trace w @ map EvDelete (registered m)
           \<and> Instance w' = 0 \<and> GetInstance w' = 0
           \<and> managers w' this = None"
proof -
  have "delete_items m w = Inr (deleted (registered m) w)"
    using assms(2) by (simp add: delete_items_registered owns_packages_def delete_each_live)
  then show ?thesis
    using assms(1) by (simp add: destructor_def GetInstance_def)
qed

theorem destructor_frees_all_witness:
  "managers two_objects_world 100 = Some [(7, [1]), (8, [2])]
   \<and> owns_packages [(7, [1]), (8, [2])] two_objects_world
   \<and> (\<exists>w'. destructor 100 two_objects_world = Inr w'
          \<and> packages w' 1 = None \<and> packages w' 2 = None
          \<and> trace w' = [EvDelete 1, EvDelete 2] \<and> Instance w' = 0)"
  using destructor_frees_all [of two_objects_world 100 "[(7, [1]), (8, [2])]"]
  by (auto simp: two_objects_world_def owns_packages_def registered_def)

text \<open>
  C8. The constructor is total. Run while \<open>Instance\<close> already points at a registry, it
  logs one error, builds the new registry with an empty map, and leaves \<open>Instance\<close>
  pointing at the new object.
\<close>

theorem constructor_second_instance:
  assumes "Instance w \<noteq> 0"
  shows "Instance (constructor this w) = this
       \<and> GetInstance (constructor this w) = this
       \<and> managers (constructor this w) this = Some []
       \<and> trace (constructor this w) =
           trace w @ [EvLogError ''FAkComponentCallbackManager has already been instantiated.'']"
  using assms by (simp add: constructor_def GetInstance_def Let_def)

theorem constructor_second_instance_witness:
  "Instance two_objects_world \<noteq> 0
   \<and> Instance (constructor 200 two_objects_world) = 200
   \<and> GetInstance (constructor 200 two_objects_world) = 200
   \<and> managers (constructor 200 two_objects_world) 200 = Some []
   \<and> managers (constructor 200 two_objects_world) 100 = Some [(7, [1]), (8, [2])]
   \<and> trace (constructor 200 two_objects_world) =
       [EvLogError ''FAkComponentCallbackManager has already been instantiated.'']"
  using constructor_second_instance [of two_objects_world 200]
  by (simp add: two_objects_world_def constructor_def store_map_def)

text \<open>
  C3. After any sequence of create and remove calls for one game object that runs
  without a fault, the set the registry holds for that game object has exactly the
  members that the specification words: the packages created for it and not removed
  since, starting from the members it had before.
\<close>

theorem package_set_membership:
  assumes "managers w this \<noteq> None"
    and "list_all (create_or_remove_for g) cs"
    and "run this cs w = Inr w'"
  shows "set (package_set this g w') = created_minus_removed cs (set (package_set this g w))"
  using run_create_or_remove [OF assms] by simp

theorem package_set_membership_witness:
  "managers (constructor 100 initial_world) 100 \<noteq> None
   \<and> list_all (create_or_remove_for 7)
        [Create_FunctionPtr 1 5 9 1 7, Create_BlueprintDelegate 2 6 1 7, Remove 1 7]
   \<and> (\<exists>w'. run 100 [Create_FunctionPtr 1 5 9 1 7, Create_BlueprintDelegate 2 6 1 7, Remove 1 7] (constructor 100 initial_world) = Inr w'
          \<and> set (package_set 100 7 w') = {2})"
proof -
  let ?cs = "[Create_FunctionPtr 1 5 9 1 7, Create_BlueprintDelegate 2 6 1 7, Remove 1 7]"
  let ?w = "constructor 100 initial_world"
  have live: "managers ?w 100 \<noteq> None"
    by (simp add: constructor_def initial_world_def)
  have cs: "list_all (create_or_remove_for 7) ?cs"
    by simp
  have "\<exists>w'. run 100 ?cs ?w = Inr w'"
    by (simp add: constructor_def initial_world_def create_defs container_defs store_map_def
          RemoveCallbackPackage_def RemovePackageFromSet_def Optimize_Value_def delete_package_def emit_def)
  then obtain w' where r: "run 100 ?cs ?w = Inr w'" ..
  have "package_set 100 7 ?w = []"
    by (simp add: package_set_def constructor_def initial_world_def TMap_Find_def)
  then have "created_minus_removed ?cs (set (package_set 100 7 ?w)) = {2}"
    by auto
  with package_set_membership [OF live cs r] have "set (package_set 100 7 w') = {2}"
    by (rule trans)
  with r have "\<exists>w'. run 100 ?cs ?w = Inr w' \<and> set (package_set 100 7 w') = {2}"
    by (intro exI conjI)
  with live cs show ?thesis by (intro conjI)
qed

text \<open>
  C4. On a live registry \<^verbatim>\<open>HasActiveEvents\<close> answers true exactly when the map has a
  set for the game object and that set is not empty. It answers false for a game
  object the map has no set for, and after every package of the game object's set
  has been removed.
\<close>

theorem HasActiveEvents_iff:
  assumes "managers w this = Some m"
  shows "HasActiveEvents this g w = Inr (\<exists>S. TMap_Find g m = Some S \<and> S \<noteq> [])
       \<and> (TMap_Find g m = None \<longrightarrow> HasActiveEvents this g w = Inr False)
       \<and> (\<forall>w'. run this (map (\<lambda>p. Remove p g) (package_set this g w)) w = Inr w'
                 \<longrightarrow> HasActiveEvents this g w' = Inr False)"
proof (intro conjI allI impI)
  show "HasActiveEvents this g w = Inr (\<exists>S. TMap_Find g m = Some S \<and> S \<noteq> [])"
    using assms by (auto simp: HasActiveEvents_def TSet_Num_def split: option.splits)
  then show "HasActiveEvents this g w = Inr False" if "TMap_Find g m = None"
    using that by simp
next
  fix w'
  assume r: "run this (map (\<lambda>p. Remove p g) (package_set this g w)) w = Inr w'"
  have live: "managers w this \<noteq> None" using assms by simp
  have "list_all (create_or_remove_for g) (map (\<lambda>p. Remove p g) (package_set this g w))"
    by (simp add: list_all_iff)
  from run_create_or_remove [OF live this r]
  show "HasActiveEvents this g w' = Inr False"
    by (simp add: created_minus_removed_Removes HasActiveEvents_package_set)
qed

theorem HasActiveEvents_iff_witness:
  "managers two_objects_world 100 = Some [(7, [1]), (8, [2])]
   \<and> HasActiveEvents 100 7 two_objects_world = Inr True
   \<and> TMap_Find 9 [(7, [1]), (8, [2])] = None
   \<and> HasActiveEvents 100 9 two_objects_world = Inr False
   \<and> (\<exists>w'. run 100 [Remove 1 7] two_objects_world = Inr w'
          \<and> HasActiveEvents 100 7 w' = Inr False)"
proof -
  have m: "managers two_objects_world 100 = Some [(7, [1]), (8, [2])]"
    by (simp add: two_objects_world_def)
  have s: "package_set 100 7 two_objects_world = [1]"
    by (simp add: package_set_def two_objects_world_def TMap_Find_def)
  obtain w' where r: "run 100 [Remove 1 7] two_objects_world = Inr w'"
    by (simp add: two_objects_world_def container_defs store_map_def
          RemoveCallbackPackage_def RemovePackageFromSet_def Optimize_Value_def delete_package_def emit_def)
  from HasActiveEvents_iff [OF m, of 7] s r have "HasActiveEvents 100 7 w' = Inr False"
    by simp
  moreover from HasActiveEvents_iff [OF m, of 7] have "HasActiveEvents 100 7 two_objects_world = Inr True"
    by (simp add: TMap_Find_def)
  moreover from HasActiveEvents_iff [OF m, of 9] have "HasActiveEvents 100 9 two_objects_world = Inr False"
    by (simp add: TMap_Find_def)
  ultimately show ?thesis using m r by (auto simp: TMap_Find_def)
qed

text \<open>
  C10. Under the compiled policy (\<open>Optimize_Value = MemoryUsage\<close>) no registry
  object ever holds an empty set: this is so at program start, and the constructor,
  every call of the public interface, every call of the trampoline, every sequence of
  such calls and the destructor keep it so; \<^verbatim>\<open>RemovePackageFromSet\<close> itself maps a map
  without empty sets to one without.
\<close>

theorem no_empty_set_invariant:
  "no_empty_sets initial_world
   \<and> (no_empty_sets w \<longrightarrow>
        no_empty_sets (constructor this w)
      \<and> (\<forall>c w'. step this c w = Inr w' \<longrightarrow> no_empty_sets w')
      \<and> (\<forall>cs w'. run this cs w = Inr w' \<longrightarrow> no_empty_sets w')
      \<and> (\<forall>w'. destructor this w = Inr w' \<longrightarrow> no_empty_sets w'))
   \<and> (\<forall>S p g m. no_empty_set m \<longrightarrow> no_empty_set (RemovePackageFromSet S p g m))"
  using no_empty_sets_initial no_empty_sets_constructor no_empty_sets_step no_empty_sets_run
    no_empty_sets_destructor no_empty_set_RemovePackageFromSet
  by blast


theorem no_empty_set_invariant_witness:
  "no_empty_sets (constructor 100 initial_world)
   \<and> (\<exists>w'. run 100 [Create_FunctionPtr 1 5 9 1 7, Remove 1 7] (constructor 100 initial_world) = Inr w'
          \<and> managers w' 100 = Some [] \<and> no_empty_sets w')
   \<and> no_empty_set [(7, [1])]
   \<and> RemovePackageFromSet [1] 1 7 [(7, [1])] = []
   \<and> no_empty_set (RemovePackageFromSet [1] 1 7 [(7, [1])])"
proof -
  let ?w = "constructor 100 initial_world"
  let ?cs = "[Create_FunctionPtr 1 5 9 1 7, Remove 1 7]"
  have w: "no_empty_sets ?w"
    using no_empty_set_invariant [of initial_world 100] by blast
  have "\<exists>w'. run 100 ?cs ?w = Inr w' \<and> managers w' 100 = Some []"
    by (simp add: constructor_def initial_world_def create_defs container_defs store_map_def
          RemoveCallbackPackage_def RemovePackageFromSet_def Optimize_Value_def delete_package_def emit_def)
  then obtain w' where r: "run 100 ?cs ?w = Inr w'" and m: "managers w' 100 = Some []"
    by blast
  have "no_empty_sets w'"
    using no_empty_set_invariant [of ?w 100] w r by blast
  with r m have run: "\<exists>w'. run 100 ?cs ?w = Inr w' \<and> managers w' 100 = Some [] \<and> no_empty_sets w'"
    by blast
  have m0: "no_empty_set [(7, [1])]"
    by (simp add: no_empty_set_def)
  then have "no_empty_set (RemovePackageFromSet [1] 1 7 [(7, [1])])"
    using no_empty_set_invariant [of initial_world 100] by blast
  moreover have "RemovePackageFromSet [1] 1 7 [(7, [1])] = []"
    by (simp add: RemovePackageFromSet_def Optimize_Value_def container_defs)
  ultimately show ?thesis
    using w run m0 by (intro conjI)
qed

text \<open>
  C5. Whatever a returning call of the trampoline adds to the trace comes in this order:
  first the removal from the map (if any), then the events of the handler (if it was
  invoked), and last the deletion of the package (if any); the package is deleted
  exactly when it was removed from the map, so never before its handler has run. The
  handler is invoked on the map as the call leaves it: when the package was removed,
  the set that the handler finds for the game object is the former set without the
  package (no set when that leaves it empty), and the package, allocated on entry, is
  the one object freed; otherwise the set and the heap are as on entry.
\<close>

theorem AkComponentCallback_order:
  assumes "AkComponentCallback t info w = Inr (info', w')"
  shows "\<exists>rm hs fr.
           trace w' = trace w @ rm @ hs @ fr
         \<and> (rm = [] \<or> rm = [EvMapRemove (pCookie info) (gameObjID info)])
         \<and> list_all handler_event hs
         \<and> (hs = [] \<or>
              (\<exists>hs'. hs = EvHandleAction (pCookie info) t (visible_set (gameObjID info) w') # hs'))
         \<and> (fr = [] \<or> fr = [EvDelete (pCookie info)])
         \<and> (fr = [] \<longleftrightarrow> rm = [])
         \<and> (if rm = [] then
               visible_set (gameObjID info) w' = visible_set (gameObjID info) w
               \<and> packages w' = packages w
             else
               (\<exists>S. visible_set (gameObjID info) w = Some S
                  \<and> visible_set (gameObjID info) w' =
                      (if removeAll (pCookie info) S = [] then None
                       else Some (removeAll (pCookie info) S)))
               \<and> packages w (pCookie info) \<noteq> None
               \<and> packages w' = (packages w)(pCookie info := None))"
proof (cases "Instance w = 0 \<or> pCookie info = 0")
  case True
  then have "w' = w"
    using assms by (simp add: AkComponentCallback_idle)
  then show ?thesis
    by (intro exI [of _ "[]"]) simp
next
  case False
  let ?p = "pCookie info" and ?g = "gameObjID info"
  from False have i: "Instance w \<noteq> 0" and c: "?p \<noteq> 0" by simp_all
  from AkComponentCallback_Inr [OF assms this]
  obtain m pkg hs del where
    m: "managers w (Instance w) = Some m"
    and pkg: "packages w ?p = Some pkg"
    and del: "del = (TMap_Find ?g m \<noteq> None \<and> t = AK_EndOfEvent)"
    and ms: "managers w' =
             (if del then (managers w)(Instance w \<mapsto>
                 RemovePackageFromSet (the (TMap_Find ?g m)) ?p ?g m)
              else managers w)"
    and ps: "packages w' = (if del then (packages w)(?p := None) else packages w)"
    and tr: "trace w' = trace w @ (if del then [EvMapRemove ?p ?g] else [])
                         @ hs @ (if del then [EvDelete ?p] else [])"
    and hs: "list_all handler_event hs"
    and ins: "Instance w' = Instance w"
    and view: "hs = [] \<or> (\<exists>hs'. hs = EvHandleAction ?p t (visible_set ?g w') # hs')"
    by blast
  have before: "visible_set ?g w = TMap_Find ?g m"
    using m by (simp add: visible_set_def)
  show ?thesis
  proof (cases del)
    case True
    then obtain S where S: "TMap_Find ?g m = Some S"
      using del by auto
    have "visible_set ?g w' = map_of (RemovePackageFromSet S ?p ?g m) ?g"
      using True ms ins S by (simp add: visible_set_def TMap_Find_def)
    then have after: "visible_set ?g w' =
                        (if removeAll ?p S = [] then None else Some (removeAll ?p S))"
      by (simp add: map_of_RemovePackageFromSet)
    have "\<exists>S. visible_set ?g w = Some S
             \<and> visible_set ?g w' = (if removeAll ?p S = [] then None else Some (removeAll ?p S))"
      using before S after by (intro exI [of _ S] conjI) simp_all
    then show ?thesis
      using True tr hs view pkg ps
      by (intro exI [of _ "[EvMapRemove ?p ?g]"] exI [of _ hs] exI [of _ "[EvDelete ?p]"]) simp
  next
    case False
    have "visible_set ?g w' = visible_set ?g w"
      using False ms ins by (simp add: visible_set_def)
    then show ?thesis
      using False tr hs view ps
      by (intro exI [of _ "[]"] exI [of _ hs] exI [of _ "[]"]) simp
  qed
qed

theorem AkComponentCallback_order_witness:
  "\<exists>info' w'.
     AkComponentCallback AK_EndOfEvent \<lparr>pCookie = 1, gameObjID = 7\<rparr> two_packages_world = Inr (info', w')
     \<and> trace w' = [EvMapRemove 1 7, EvHandleAction 1 1 (Some [2]),
                    EvUserCall 5 1 \<lparr>pCookie = 9, gameObjID = 7\<rparr>, EvDelete 1]
     \<and> visible_set 7 two_packages_world = Some [1, 2]
     \<and> visible_set 7 w' = Some [2]
     \<and> packages w' 1 = None
     \<and> (\<exists>rm hs fr.
           trace w' = trace two_packages_world @ rm @ hs @ fr
         \<and> (rm = [] \<or> rm = [EvMapRemove 1 7])
         \<and> list_all handler_event hs
         \<and> (hs = [] \<or> (\<exists>hs'. hs = EvHandleAction 1 AK_EndOfEvent (visible_set 7 w') # hs'))
         \<and> (fr = [] \<or> fr = [EvDelete 1])
         \<and> (fr = [] \<longleftrightarrow> rm = []))"
proof -
  let ?info = "\<lparr>pCookie = 1, gameObjID = 7\<rparr>"
  have "\<exists>info' w'. AkComponentCallback AK_EndOfEvent ?info two_packages_world = Inr (info', w')
          \<and> trace w' = [EvMapRemove 1 7, EvHandleAction 1 1 (Some [2]),
                    EvUserCall 5 1 \<lparr>pCookie = 9, gameObjID = 7\<rparr>, EvDelete 1]
          \<and> visible_set 7 w' = Some [2]
          \<and> packages w' 1 = None"
    by (simp add: two_packages_world_def callback_defs container_defs visible_set_def Let_def)
  then obtain info' w' where r: "AkComponentCallback AK_EndOfEvent ?info two_packages_world = Inr (info', w')"
    and tr: "trace w' = [EvMapRemove 1 7, EvHandleAction 1 1 (Some [2]),
                    EvUserCall 5 1 \<lparr>pCookie = 9, gameObjID = 7\<rparr>, EvDelete 1]"
    and vs: "visible_set 7 w' = Some [2]"
    and ps: "packages w' 1 = None"
    by blast
  have v0: "visible_set 7 two_packages_world = Some [1, 2]"
    by (simp add: two_packages_world_def visible_set_def TMap_Find_def)
  from AkComponentCallback_order [OF r] obtain rm hs fr where
    "trace w' = trace two_packages_world @ rm @ hs @ fr"
    "rm = [] \<or> rm = [EvMapRemove 1 7]"
    "list_all handler_event hs"
    "hs = [] \<or> (\<exists>hs'. hs = EvHandleAction 1 AK_EndOfEvent (visible_set 7 w') # hs')"
    "fr = [] \<or> fr = [EvDelete 1]"
    "fr = [] \<longleftrightarrow> rm = []"
    by auto
  then have "\<exists>rm hs fr.
           trace w' = trace two_packages_world @ rm @ hs @ fr
         \<and> (rm = [] \<or> rm = [EvMapRemove 1 7])
         \<and> list_all handler_event hs
         \<and> (hs = [] \<or> (\<exists>hs'. hs = EvHandleAction 1 AK_EndOfEvent (visible_set 7 w') # hs'))
         \<and> (fr = [] \<or> fr = [EvDelete 1])
         \<and> (fr = [] \<longleftrightarrow> rm = [])"
    by (intro exI [of _ rm] exI [of _ hs] exI [of _ fr] conjI)
  then show ?thesis
    by (intro exI [of _ info'] exI [of _ w'] conjI) (rule r tr v0 vs ps | assumption)+
qed

text \<open>
  C9. A call of the trampoline for the end of an event, with a live registry, an
  allocated package and a handler that can run, returns; it removes and deletes the
  package exactly when the map has a set for the event's game object. Whether the
  package is a member of that set plays no part: the hypotheses say nothing about it.
\<close>

theorem AkComponentCallback_deletes_without_membership:
  assumes "Instance w \<noteq> 0" and "managers w (Instance w) = Some m"
    and "pCookie info \<noteq> 0" and "packages w (pCookie info) = Some pkg"
    and "handler_can_run pkg w"
  shows "\<exists>info' w'.
           AkComponentCallback AK_EndOfEvent info w = Inr (info', w')
         \<and> (packages w' (pCookie info) = None \<longleftrightarrow> TMap_Find (gameObjID info) m \<noteq> None)
         \<and> (\<exists>hs. list_all handler_event hs
                \<and> trace w' =
                    trace w
                    @ (if TMap_Find (gameObjID info) m \<noteq> None
                       then [EvMapRemove (pCookie info) (gameObjID info)] else [])
                    @ hs
                    @ (if TMap_Find (gameObjID info) m \<noteq> None
                       then [EvDelete (pCookie info)] else []))"
proof -
  obtain info' w' where r: "AkComponentCallback AK_EndOfEvent info w = Inr (info', w')"
    using AkComponentCallback_returns [OF assms(1,3,2,4,5)] by blast
  from AkComponentCallback_Inr [OF r assms(1,3)]
  obtain m0 pkg0 hs del where
    "managers w (Instance w) = Some m0"
    and del: "del = (TMap_Find (gameObjID info) m0 \<noteq> None \<and> AK_EndOfEvent = AK_EndOfEvent)"
    and ps: "packages w' = (if del then (packages w)(pCookie info := None) else packages w)"
    and tr: "trace w' = trace w @ (if del then [EvMapRemove (pCookie info) (gameObjID info)] else [])
                         @ hs @ (if del then [EvDelete (pCookie info)] else [])"
    and hs: "list_all handler_event hs"
    by blast
  then have del': "del = (TMap_Find (gameObjID info) m \<noteq> None)"
    using assms(2) by simp
  have p1: "packages w' (pCookie info) = None \<longleftrightarrow> TMap_Find (gameObjID info) m \<noteq> None"
    using ps assms(4) by (simp add: del')
  have p2: "\<exists>hs. list_all handler_event hs
                \<and> trace w' =
                    trace w
                    @ (if TMap_Find (gameObjID info) m \<noteq> None
                       then [EvMapRemove (pCookie info) (gameObjID info)] else [])
                    @ hs
                    @ (if TMap_Find (gameObjID info) m \<noteq> None
                       then [EvDelete (pCookie info)] else [])"
    using hs tr unfolding del' by (intro exI [of _ hs] conjI)
  show ?thesis
    by (intro exI [of _ info'] exI [of _ w'] conjI) (rule r p1 p2)+
qed

theorem AkComponentCallback_deletes_without_membership_witness:
  "Instance two_objects_world \<noteq> 0
   \<and> managers two_objects_world (Instance two_objects_world) = Some [(7, [1]), (8, [2])]
   \<and> packages two_objects_world 1 = Some (FAkFunctionPtrEventCallbackPackage 1 5 9)
   \<and> handler_can_run (FAkFunctionPtrEventCallbackPackage 1 5 9) two_objects_world
   \<and> TMap_Find 8 [(7, [1]), (8, [2])] = Some [2]
   \<and> 1 \<notin> set [2::nat]
   \<and> (\<exists>info' w'.
         AkComponentCallback AK_EndOfEvent \<lparr>pCookie = 1, gameObjID = 8\<rparr> two_objects_world = Inr (info', w')
       \<and> packages w' 1 = None
       \<and> managers w' 100 = Some [(7, [1]), (8, [2])])"
proof -
  let ?info = "\<lparr>pCookie = 1, gameObjID = 8\<rparr>"
  let ?pkg = "FAkFunctionPtrEventCallbackPackage 1 5 9"
  let ?m = "[(7, [1]), (8, [2])] :: PackagesMap"
  have a: "Instance two_objects_world \<noteq> 0"
    and b: "managers two_objects_world (Instance two_objects_world) = Some ?m"
    and c: "pCookie ?info \<noteq> 0"
    and d: "packages two_objects_world (pCookie ?info) = Some ?pkg"
    and e: "handler_can_run ?pkg two_objects_world"
    and f: "TMap_Find 8 ?m = Some [2]"
    by (simp_all add: two_objects_world_def handler_can_run_def TMap_Find_def)
  from AkComponentCallback_deletes_without_membership [OF a b c d e]
  obtain info' w' where r: "AkComponentCallback AK_EndOfEvent ?info two_objects_world = Inr (info', w')"
    and g: "packages w' 1 = None"
    using f by auto
  have "\<exists>info' w'. AkComponentCallback AK_EndOfEvent ?info two_objects_world = Inr (info', w')
          \<and> managers w' 100 = Some ?m"
    by (simp add: two_objects_world_def callback_defs container_defs Let_def)
  then have "managers w' 100 = Some ?m"
    using r by auto
  with r g have "\<exists>info' w'.
         AkComponentCallback AK_EndOfEvent ?info two_objects_world = Inr (info', w')
       \<and> packages w' 1 = None
       \<and> managers w' 100 = Some ?m"
    by blast
  with a b d e f show ?thesis by simp
qed

text \<open>
  C1. The scenario of the specification, for any game object (42 in the witness). On a
  registry that is the current \<open>Instance\<close> and has no set for the game object,
  creating a function-pointer package whose flags include the end of an event makes
  \<^verbatim>\<open>HasActiveEvents\<close> true. The trampoline, called for the end of the event with the
  package as cookie, then returns; it calls the user function exactly once, handing it
  the user's cookie, leaves the package's address in the cookie field, deletes the
  package after the call, and \<^verbatim>\<open>HasActiveEvents\<close> is false afterwards.
\<close>

theorem end_of_event_scenario:
  assumes "Instance w = this" and "this \<noteq> 0" and "managers w this = Some m"
    and "TMap_Find g m = None"
    and "p \<noteq> 0" and "fn \<noteq> 0" and "flags AND AK_EndOfEvent \<noteq> 0"
  shows "\<exists>w1. CreateCallbackPackage_FunctionPtr this p fn cookie flags g w = Inr (p, w1)
           \<and> HasActiveEvents this g w1 = Inr True
           \<and> (\<exists>info' w2.
                 AkComponentCallback AK_EndOfEvent \<lparr>pCookie = p, gameObjID = g\<rparr> w1 = Inr (info', w2)
               \<and> trace w2 =
                   trace w @ [EvMapRemove p g, EvHandleAction p AK_EndOfEvent None,
                              EvUserCall fn AK_EndOfEvent \<lparr>pCookie = cookie, gameObjID = g\<rparr>,
                              EvDelete p]
               \<and> pCookie info' = p
               \<and> packages w2 p = None
               \<and> HasActiveEvents this g w2 = Inr False)"
proof -
  let ?pkg = "FAkFunctionPtrEventCallbackPackage flags fn cookie"
  let ?info = "\<lparr>pCookie = p, gameObjID = g\<rparr>"
  let ?t = AK_EndOfEvent
  define M where "M = m @ [(g, [p])]"
  define w1 where "w1 = store_map this M (w\<lparr>packages := (packages w)(p \<mapsto> ?pkg)\<rparr>)"
  have none: "map_of m g = None"
    using assms(4) by (simp add: TMap_Find_def)
  have "TMap_Assign g (TSet_Add p (fst (TMap_FindOrAdd g m))) (snd (TMap_FindOrAdd g m)) = M"
    using none by (simp add: container_defs update_append_new M_def)
  then have create: "CreateCallbackPackage_FunctionPtr this p fn cookie flags g w = Inr (p, w1)"
    using assms(5) by (simp add: CreateCallbackPackage_FunctionPtr_def
        CreateCallbackPackage_result [OF assms(3)] w1_def)
  have find: "TMap_Find g M = Some [p]"
    using none by (simp add: TMap_Find_def M_def map_add_def)
  have fields1: "Instance w1 = this" "managers w1 this = Some M" "packages w1 p = Some ?pkg"
    "trace w1 = trace w"
    using assms(1) by (simp_all add: w1_def)
  have active: "HasActiveEvents this g w1 = Inr True"
    using fields1(2) find by (simp add: HasActiveEvents_def TSet_Num_def)
  define M' where "M' = RemovePackageFromSet [p] p g M"
  define w1' where "w1' = emit (EvMapRemove p g) (store_map this M' w1)"
  define info1 where "info1 = ?info\<lparr>pCookie := cookie\<rparr>"
  define info' where "info' = (userFunctions w fn ?t info1)\<lparr>pCookie := p\<rparr>"
  define w2h where "w2h = emit (EvUserCall fn ?t info1) (emit (EvHandleAction p ?t None) w1')"
  define w2 where "w2 = deleted [p] w2h"
  have i1: "Instance w1 \<noteq> 0" and c1: "pCookie ?info \<noteq> 0"
    and m1: "managers w1 (Instance w1) = Some M"
    using fields1 assms(2,5) by simp_all
  have uf: "userFunctions (emit (EvHandleAction p ?t None) w1') = userFunctions w"
    by (simp add: w1'_def w1_def)
  have handle: "HandleAction p ?pkg ?t ?info (emit (EvHandleAction p ?t None) w1') = Inr (info', w2h)"
    using assms(6) uf
    by (simp add: HandleAction_def FunctionPtr_HandleAction_def Let_def info'_def info1_def w2h_def)
  have "packages w2h p = Some ?pkg"
    using fields1(3) by (simp add: w2h_def w1'_def)
  then have del: "delete_package p w2h = Inr w2"
    using assms(5) by (simp add: delete_package_live w2_def)
  have gone: "map_of M' g = None"
    by (simp add: M'_def map_of_RemovePackageFromSet)
  then have vs: "visible_set g w1' = None"
    using fields1(1) by (simp add: visible_set_def w1'_def TMap_Find_def)
  have call: "AkComponentCallback ?t ?info w1 = Inr (info', w2)"
    unfolding AkComponentCallback_unfold [OF i1 c1 m1]
    using find fields1(1,3) assms(7) handle del vs
    by (simp add: w1'_def M'_def)
  have tr: "trace w2 = trace w @ [EvMapRemove p g, EvHandleAction p ?t None,
                              EvUserCall fn ?t \<lparr>pCookie = cookie, gameObjID = g\<rparr>, EvDelete p]"
    using fields1(4) by (simp add: w2_def w2h_def w1'_def info1_def)
  have ck: "pCookie info' = p"
    by (simp add: info'_def)
  have freed: "packages w2 p = None"
    by (simp add: w2_def)
  have "managers w2 this = Some M'"
    by (simp add: w2_def w2h_def w1'_def)
  then have idle: "HasActiveEvents this g w2 = Inr False"
    using gone by (simp add: HasActiveEvents_def TMap_Find_def)
  have "\<exists>info' w2.
                 AkComponentCallback AK_EndOfEvent \<lparr>pCookie = p, gameObjID = g\<rparr> w1 = Inr (info', w2)
               \<and> trace w2 =
                   trace w @ [EvMapRemove p g, EvHandleAction p AK_EndOfEvent None,
                              EvUserCall fn AK_EndOfEvent \<lparr>pCookie = cookie, gameObjID = g\<rparr>,
                              EvDelete p]
               \<and> pCookie info' = p
               \<and> packages w2 p = None
               \<and> HasActiveEvents this g w2 = Inr False"
    by (intro exI [of _ info'] exI [of _ w2] conjI) (rule call tr ck freed idle)+
  with create active show ?thesis
    by (intro exI [of _ w1] conjI)
qed


theorem end_of_event_scenario_witness:
  "Instance (constructor 100 initial_world) = 100
   \<and> managers (constructor 100 initial_world) 100 = Some []
   \<and> TMap_Find 42 [] = None
   \<and> (3 :: 32 word) AND AK_EndOfEvent \<noteq> 0
   \<and> (\<exists>w1. CreateCallbackPackage_FunctionPtr 100 1 5 9 3 42 (constructor 100 initial_world) = Inr (1, w1)
          \<and> HasActiveEvents 100 42 w1 = Inr True
          \<and> (\<exists>info' w2.
                AkComponentCallback AK_EndOfEvent \<lparr>pCookie = 1, gameObjID = 42\<rparr> w1 = Inr (info', w2)
              \<and> trace w2 =
                  [EvMapRemove 1 42, EvHandleAction 1 AK_EndOfEvent None,
                   EvUserCall 5 AK_EndOfEvent \<lparr>pCookie = 9, gameObjID = 42\<rparr>, EvDelete 1]
              \<and> pCookie info' = 1
              \<and> packages w2 1 = None
              \<and> HasActiveEvents 100 42 w2 = Inr False))"
proof -
  let ?w = "constructor 100 initial_world"
  have a: "Instance ?w = 100" and b: "(100::nat) \<noteq> 0" and c: "managers ?w 100 = Some []"
    and d: "TMap_Find 42 [] = None" and e: "(1::nat) \<noteq> 0" and f: "(5::nat) \<noteq> 0"
    and g: "(3 :: 32 word) AND AK_EndOfEvent \<noteq> 0"
    and tr: "trace ?w = []"
    by (simp_all add: constructor_def initial_world_def TMap_Find_def AK_EndOfEvent_def)
  from end_of_event_scenario [OF a b c d e f g, of 9] a c d g show ?thesis
    unfolding tr by simp
qed




end
